theory Spec2Isabelle
  imports Main "HOL-Library.Log_Nat"
begin

section \<open>The pipeline example of my_project_with_aff3ct: \<open>examples/pipeline/src/main.cpp\<close>\<close>

text \<open>
  The program builds a communication chain out of AFF3CT modules, wraps one task of each
  module into a pipeline \<open>Block\<close>, binds the sockets of the blocks and then runs the chain
  once per Eb/N0 value of a sweep. AFF3CT itself, \<open>common/Block.hpp\<close> and
  \<open>common/Splitter/Splitter.hpp\<close> are not part of \<open>main.cpp\<close>: a call into them is recorded
  as an \<open>event\<close> in the order the main thread issues it, and what such a call returns to
  \<open>main.cpp\<close> is read from an environment record. Calls are taken to return normally (no
  exception), except that joining the watchdog thread needs the thread to finish.
\<close>

subsection \<open>The \<open>float\<close> values of \<open>main.cpp\<close>\<close>

text \<open>
  A binary32 value is an exact rational or one of the three special values. Every operation
  rounds the exact result to the nearest value with a 24 bit significand, ties to even,
  with gradual underflow below \<open>2 powi (-126)\<close> and overflow to infinity from \<open>2 powi 128\<close> on.
  The sign of zero is not kept: the only divisor of the program is the conversion of an
  \<open>int\<close>, which is never a negative zero.
\<close>

datatype f32 = Finite rat | PInf | NInf | NaN

definition rat_exponent :: "rat \<Rightarrow> int" where
  "rat_exponent x =
     (let (a, b) = quotient_of \<bar>x\<bar>;
          d = int (floorlog 2 (nat a)) - int (floorlog 2 (nat b))
      in if 2 powi d \<le> \<bar>x\<bar> then d else d - 1)"

definition round_half_even :: "rat \<Rightarrow> int" where
  "round_half_even q =
     (let n = \<lfloor>q\<rfloor>; r = q - of_int n
      in if r < 1 / 2 then n
         else if 1 / 2 < r then n + 1
         else if even n then n else n + 1)"

definition f32_round :: "rat \<Rightarrow> f32" where
  "f32_round x =
     (if x = 0 then Finite 0
      else let e = max (rat_exponent x) (- 126);
               ulp = 2 powi (e - 23);
               y = of_int (round_half_even (x / ulp)) * ulp
           in if 2 powi 128 \<le> y then PInf
              else if y \<le> - (2 powi 128) then NInf
              else Finite y)"

text \<open>\<open>(float) k\<close> for an \<open>int\<close> k.\<close>

definition f32_of_int :: "int \<Rightarrow> f32" where
  "f32_of_int k = f32_round (of_int k)"

text \<open>\<open>a + b\<close>, as in \<open>ebn0 += p.ebn0_step\<close>.\<close>

fun f32_add :: "f32 \<Rightarrow> f32 \<Rightarrow> f32" where
  "f32_add NaN _ = NaN"
| "f32_add _ NaN = NaN"
| "f32_add (Finite a) (Finite b) = f32_round (a + b)"
| "f32_add PInf NInf = NaN"
| "f32_add NInf PInf = NaN"
| "f32_add PInf _ = PInf"
| "f32_add _ PInf = PInf"
| "f32_add NInf _ = NInf"
| "f32_add _ NInf = NInf"

text \<open>\<open>a < b\<close>, as in \<open>ebn0 < p.ebn0_max\<close>: false as soon as one side is a NaN.\<close>

fun f32_less :: "f32 \<Rightarrow> f32 \<Rightarrow> bool" where
  "f32_less NaN _ = False"
| "f32_less _ NaN = False"
| "f32_less (Finite a) (Finite b) = (a < b)"
| "f32_less _ NInf = False"
| "f32_less NInf _ = True"
| "f32_less PInf _ = False"
| "f32_less _ PInf = True"

text \<open>\<open>a / b\<close>, as in the code rate \<open>(float) K / (float) N_cw\<close>.\<close>

fun f32_div :: "f32 \<Rightarrow> f32 \<Rightarrow> f32" where
  "f32_div NaN _ = NaN"
| "f32_div _ NaN = NaN"
| "f32_div (Finite a) (Finite b) =
     (if b = 0 then (if a = 0 then NaN else if 0 < a then PInf else NInf)
      else f32_round (a / b))"
| "f32_div (Finite a) _ = Finite 0"
| "f32_div PInf (Finite b) = (if 0 \<le> b then PInf else NInf)"
| "f32_div NInf (Finite b) = (if 0 \<le> b then NInf else PInf)"
| "f32_div _ _ = NaN"

subsection \<open>Parameters, modules and tasks\<close>

text \<open>
  \<open>struct params\<close>. The five leading fields are \<open>const\<close> members with default member
  initialisers; \<open>R\<close> is assigned by \<open>init_params\<close>. The factories the struct points to belong
  to AFF3CT: the values \<open>main.cpp\<close> reads from them are fields of the environment below.
\<close>

record params =
  bl_buffer_size :: nat
  bl_n_threads :: nat
  ebn0_min :: f32
  ebn0_max :: f32
  ebn0_step :: f32
  R :: f32

text \<open>\<open>params p;\<close>: the default member initialisers; \<open>R\<close> is not initialised yet.\<close>

definition new_params :: "f32 \<Rightarrow> params" where
  "new_params r0 =
     \<lparr> bl_buffer_size = 16, bl_n_threads = 1,
       ebn0_min = f32_round 0, ebn0_max = f32_round (1001 / 100), ebn0_step = f32_round 1,
       R = r0 \<rparr>"

text \<open>The module objects of \<open>struct modules\<close> (the encoder and the decoder belong to the codec).\<close>

datatype module_id =
    M_source | M_splitter | M_codec | M_modulator | M_demodulator | M_channel | M_monitor
  | M_encoder | M_decoder

text \<open>The task selected from a module by \<open>(*m.x)[ns::tsk::name]\<close>.\<close>

datatype task_id =
    Src_generate | Enc_encode | Mdm_modulate | Chn_add_noise | Mdm_demodulate
  | Dec_decode_siho | Spl_split | Mnt_check_errors

text \<open>The eight \<open>Block\<close> objects of \<open>main\<close>.\<close>

datatype block_id =
    Bl_source | Bl_encoder | Bl_modulator | Bl_channel | Bl_demodulator | Bl_decoder
  | Bl_splitter | Bl_monitor

text \<open>
  The configuration of one AFF3CT task, as far as \<open>init_modules\<close> touches it. A setter
  of \<open>module::Task\<close> is the update of its field, \<open>is_debug\<close> and \<open>is_stats\<close> read theirs.
\<close>

record task =
  autoalloc :: bool
  autoexec :: bool
  debug :: bool
  debug_limit :: nat
  stats :: bool
  fast :: bool

datatype handler = Decoder_reset module_id

datatype reporter = Reporter_noise | Reporter_BFER | Reporter_throughput

text \<open>What the main thread does, one event per call that leaves \<open>main.cpp\<close>.\<close>

datatype event =
    Print_banner
  | Command_parser
  | Print_help
  | Print_warnings
  | Print_errors
  | Print_parameters
  | Build module_id
  | Set_custom_name module_id string
  | Add_handler_check handler
  | New_sigma
  | New_reporter reporter
  | Build_terminal
  | Legend
  | New_block block_id module_id task_id nat nat
  | Bind block_id string block_id string
  | Noise_set_noise f32 f32 f32
  | Set_noise module_id
  | Start_temp_report
  | Thread_start
  | Run block_id
  | Join block_id
  | Reset block_id
  | Thread_join
  | Final_report
  | Monitor_reset
  | Terminal_reset
  | Stats_show
  | Print_end
  | Delete_block block_id

text \<open>
  What the collaborators return to \<open>main.cpp\<close>. \<open>fe_limit_achieved k n\<close> and
  \<open>is_interrupt k n\<close> are the answers to the n-th poll of the watchdog thread of the k-th
  pass of the sweep loop, \<open>is_over k\<close> is the answer at the end of that pass.
\<close>

record env =
  parsing_failed :: bool
  enc_K :: int
  enc_N_cw :: int
  modem_bps :: int
  modem_cpm_upf :: int
  ebn0_to_esn0 :: "f32 \<Rightarrow> f32 \<Rightarrow> int \<Rightarrow> f32"
  esn0_to_sigma :: "f32 \<Rightarrow> int \<Rightarrow> f32"
  built_tasks :: "module_id \<Rightarrow> task list"
  fe_limit_achieved :: "nat \<Rightarrow> nat \<Rightarrow> bool"
  is_interrupt :: "nat \<Rightarrow> nat \<Rightarrow> bool"
  is_over :: "nat \<Rightarrow> bool"

subsection \<open>\<open>init_params\<close>\<close>

text \<open>The code rate \<open>(float)p.codec->enc->K / (float)p.codec->enc->N_cw\<close>.\<close>

definition code_rate :: "env \<Rightarrow> f32" where
  "code_rate e = f32_div (f32_of_int (enc_K e)) (f32_of_int (enc_N_cw e))"

text \<open>
  \<open>std::exit(1)\<close> after a failed parse is the left result, with the events up to it.
\<close>

definition init_params :: "env \<Rightarrow> params \<Rightarrow> event list \<times> (int + params)" where
  "init_params e p =
     (if parsing_failed e
      then ([Command_parser, Print_help, Print_warnings, Print_errors], Inl 1)
      else ([Command_parser, Print_parameters, Print_warnings], Inr (p\<lparr>R := code_rate e\<rparr>)))"

subsection \<open>\<open>init_modules\<close>\<close>

text \<open>
  \<open>struct modules\<close>: the tasks each module object owns, the list \<open>m.list\<close>, the custom
  names and the handlers registered with the monitor.
\<close>

record modules =
  tasks :: "module_id \<Rightarrow> task list"
  m_list :: "module_id list"
  custom_names :: "(module_id \<times> string) list"
  handlers_check :: "handler list"

text \<open>The five setters of the loop body, in their order.\<close>

definition set_task_modes :: "task \<Rightarrow> task" where
  "set_task_modes t =
     t\<lparr>autoalloc := True\<rparr>\<lparr>autoexec := False\<rparr>\<lparr>debug := False\<rparr>\<lparr>debug_limit := 16\<rparr>
      \<lparr>stats := True\<rparr>"

text \<open>The condition of the \<open>if\<close> that guards \<open>set_fast(true)\<close>.\<close>

definition fast_guard :: "task \<Rightarrow> bool" where
  "fast_guard t = (\<not> debug t \<and> \<not> stats t)"

text \<open>The body of the inner loop.\<close>

definition configure_task :: "task \<Rightarrow> task" where
  "configure_task t =
     (let t' = set_task_modes t in if fast_guard t' then t'\<lparr>fast := True\<rparr> else t')"

text \<open>The two nested loops over \<open>m.list\<close> and over the tasks of each module.\<close>

fun configure_modules :: "module_id list \<Rightarrow> (module_id \<Rightarrow> task list) \<Rightarrow> (module_id \<Rightarrow> task list)" where
  "configure_modules [] ts = ts"
| "configure_modules (md # mds) ts = configure_modules mds (ts(md := map configure_task (ts md)))"

definition init_modules :: "env \<Rightarrow> params \<Rightarrow> event list \<times> modules" where
  "init_modules e p =
     (let l = [M_source, M_splitter, M_modulator, M_demodulator,
               M_channel, M_monitor, M_encoder, M_decoder]
      in ([Build M_source, Build M_splitter, Build M_codec, Build M_modulator,
           Build M_demodulator, Build M_channel, Build M_monitor,
           Set_custom_name M_modulator ''Modulator'',
           Set_custom_name M_demodulator ''Demodulator'',
           Add_handler_check (Decoder_reset M_decoder)],
          \<lparr> tasks = configure_modules l (built_tasks e),
            m_list = l,
            custom_names = [(M_modulator, ''Modulator''), (M_demodulator, ''Demodulator'')],
            handlers_check = [Decoder_reset M_decoder] \<rparr>))"

subsection \<open>\<open>init_utils\<close>\<close>

definition init_utils :: "event list" where
  "init_utils =
     [New_sigma, New_reporter Reporter_noise, New_reporter Reporter_BFER,
      New_reporter Reporter_throughput, Build_terminal]"

subsection \<open>\<open>main\<close>: blocks and bindings\<close>

text \<open>The vector \<open>blocks\<close>.\<close>

definition blocks :: "block_id list" where
  "blocks = [Bl_source, Bl_encoder, Bl_modulator, Bl_channel,
             Bl_demodulator, Bl_decoder, Bl_splitter, Bl_monitor]"

text \<open>The eight constructor calls, in declaration order.\<close>

definition new_blocks :: "params \<Rightarrow> event list" where
  "new_blocks p =
     [New_block Bl_source M_source Src_generate (bl_buffer_size p) (bl_n_threads p),
      New_block Bl_encoder M_encoder Enc_encode (bl_buffer_size p) (bl_n_threads p),
      New_block Bl_modulator M_modulator Mdm_modulate (bl_buffer_size p) (bl_n_threads p),
      New_block Bl_channel M_channel Chn_add_noise (bl_buffer_size p) (bl_n_threads p),
      New_block Bl_demodulator M_demodulator Mdm_demodulate (bl_buffer_size p) (bl_n_threads p),
      New_block Bl_decoder M_decoder Dec_decode_siho (bl_buffer_size p) (bl_n_threads p),
      New_block Bl_splitter M_splitter Spl_split (bl_buffer_size p) (bl_n_threads p),
      New_block Bl_monitor M_monitor Mnt_check_errors (bl_buffer_size p) (bl_n_threads p)]"

text \<open>
  One \<open>consumer.bind(in, producer, out)\<close> call: the input socket \<open>in\<close> of the consumer
  reads the output socket \<open>out\<close> of the producer.
\<close>

record binding =
  consumer :: block_id
  in_socket :: string
  producer :: block_id
  out_socket :: string

definition bindings :: "binding list" where
  "bindings =
     [\<lparr>consumer = Bl_splitter, in_socket = ''U_K'', producer = Bl_source, out_socket = ''U_K''\<rparr>,
      \<lparr>consumer = Bl_encoder, in_socket = ''U_K'', producer = Bl_splitter, out_socket = ''V_K1''\<rparr>,
      \<lparr>consumer = Bl_modulator, in_socket = ''X_N1'', producer = Bl_encoder, out_socket = ''X_N''\<rparr>,
      \<lparr>consumer = Bl_channel, in_socket = ''X_N'', producer = Bl_modulator, out_socket = ''X_N2''\<rparr>,
      \<lparr>consumer = Bl_demodulator, in_socket = ''Y_N1'', producer = Bl_channel, out_socket = ''Y_N''\<rparr>,
      \<lparr>consumer = Bl_decoder, in_socket = ''Y_N'', producer = Bl_demodulator, out_socket = ''Y_N2''\<rparr>,
      \<lparr>consumer = Bl_monitor, in_socket = ''U'', producer = Bl_splitter, out_socket = ''V_K2''\<rparr>,
      \<lparr>consumer = Bl_monitor, in_socket = ''V'', producer = Bl_decoder, out_socket = ''V_K''\<rparr>]"

definition bind_event :: "binding \<Rightarrow> event" where
  "bind_event b = Bind (consumer b) (in_socket b) (producer b) (out_socket b)"

subsection \<open>\<open>main\<close>: the watchdog thread\<close>

text \<open>
  The loop \<open>while (!m.monitor->fe_limit_achieved() && !u.terminal->is_interrupt());\<close> of the
  thread \<open>th_done_verif\<close>, from its n-th poll on. The result is the number of the poll that
  ends the loop; a thread that polls for ever has no result.
\<close>

partial_function (option) th_done_verif_loop :: "(nat \<Rightarrow> bool) \<Rightarrow> (nat \<Rightarrow> bool) \<Rightarrow> nat \<Rightarrow> nat option" where
  "th_done_verif_loop fe intr n =
     (if \<not> fe n \<and> \<not> intr n then th_done_verif_loop fe intr (Suc n) else Some n)"

text \<open>
  The thread body: the loop, then \<open>is_done = true\<close>. The argument is the captured flag,
  the result is the flag when the thread ends, with the number of its last poll.
\<close>

definition th_done_verif :: "(nat \<Rightarrow> bool) \<Rightarrow> (nat \<Rightarrow> bool) \<Rightarrow> bool \<Rightarrow> (bool \<times> nat) option" where
  "th_done_verif fe intr is_done =
     (case th_done_verif_loop fe intr 0 of None \<Rightarrow> None | Some n \<Rightarrow> Some (True, n))"

subsection \<open>\<open>main\<close>: the sweep\<close>

text \<open>
  The calls of one pass of the loop body at the value \<open>ebn0\<close>, in program order, up to and
  including \<open>u.terminal->reset()\<close>.
\<close>

definition loop_body :: "env \<Rightarrow> params \<Rightarrow> f32 \<Rightarrow> event list" where
  "loop_body e p ebn0 =
     (let esn0 = ebn0_to_esn0 e ebn0 (R p) (modem_bps e);
          sigma = esn0_to_sigma e esn0 (modem_cpm_upf e)
      in [Noise_set_noise sigma ebn0 esn0,
          Set_noise M_codec, Set_noise M_demodulator, Set_noise M_channel,
          Start_temp_report, Thread_start]
         @ map Run blocks @ map Join blocks @ map Reset blocks
         @ [Thread_join, Final_report, Monitor_reset, Terminal_reset])"

text \<open>
  The k-th pass. The flag \<open>is_done\<close> starts as \<open>false\<close> and is handed to the watchdog
  thread; the main thread gets past \<open>th_done_verif.join()\<close> only when that thread ends.
\<close>

definition iteration :: "env \<Rightarrow> params \<Rightarrow> nat \<Rightarrow> f32 \<Rightarrow> event list option" where
  "iteration e p k ebn0 =
     (let is_done = False
      in case th_done_verif (fe_limit_achieved e k) (is_interrupt e k) is_done of
           None \<Rightarrow> None
         | Some _ \<Rightarrow> Some (loop_body e p ebn0))"

text \<open>
  The \<open>for\<close> loop over the Eb/N0 values, from its k-th pass on, with the passes done so
  far. A loop that never ends has no result.
\<close>

partial_function (option) sweep :: "env \<Rightarrow> params \<Rightarrow> nat \<Rightarrow> f32 \<Rightarrow> event list list \<Rightarrow> event list list option" where
  "sweep e p k ebn0 done =
     (if f32_less ebn0 (ebn0_max p)
      then (case iteration e p k ebn0 of
              None \<Rightarrow> None
            | Some it \<Rightarrow>
                if is_over e k then Some (done @ [it])
                else sweep e p (Suc k) (f32_add ebn0 (ebn0_step p)) (done @ [it]))
      else Some done)"

subsection \<open>\<open>main\<close>\<close>

text \<open>
  A finished run of the program: the events before the sweep, the events of each pass of
  the sweep, the events after it, the exit status, and the modules as \<open>init_modules\<close>
  left them. The blocks are local objects of \<open>main\<close>, destroyed when it returns.
\<close>

record run =
  before_sweep :: "event list"
  passes :: "event list list"
  after_sweep :: "event list"
  status :: int
  mods :: "modules option"

definition trace :: "run \<Rightarrow> event list" where
  "trace r = before_sweep r @ concat (passes r) @ after_sweep r"

definition main :: "env \<Rightarrow> f32 \<Rightarrow> run option" where
  "main e r0 =
     (case init_params e (new_params r0) of
        (evs, Inl code) \<Rightarrow>
          Some \<lparr> before_sweep = Print_banner # evs, passes = [], after_sweep = [],
                 status = code, mods = None \<rparr>
      | (evs, Inr p) \<Rightarrow>
          (let (evs_m, m) = init_modules e p
           in case sweep e p 0 (ebn0_min p) [] of
                None \<Rightarrow> None
              | Some its \<Rightarrow>
                  Some \<lparr> before_sweep =
                           Print_banner # evs @ evs_m @ init_utils @ [Legend]
                           @ new_blocks p @ map bind_event bindings,
                         passes = its,
                         after_sweep = [Stats_show, Print_end] @ map Delete_block (rev blocks),
                         status = 0, mods = Some m \<rparr>))"

subsection \<open>Reading a trace\<close>

fun is_Run :: "event \<Rightarrow> bool" where
  "is_Run (Run _) = True"
| "is_Run _ = False"

fun is_Join :: "event \<Rightarrow> bool" where
  "is_Join (Join _) = True"
| "is_Join _ = False"

fun is_Reset :: "event \<Rightarrow> bool" where
  "is_Reset (Reset _) = True"
| "is_Reset _ = False"

fun is_New_block :: "event \<Rightarrow> bool" where
  "is_New_block (New_block _ _ _ _ _) = True"
| "is_New_block _ = False"

fun is_Delete_block :: "event \<Rightarrow> bool" where
  "is_Delete_block (Delete_block _) = True"
| "is_Delete_block _ = False"

fun is_Build :: "event \<Rightarrow> bool" where
  "is_Build (Build _) = True"
| "is_Build _ = False"

fun is_Bind :: "event \<Rightarrow> bool" where
  "is_Bind (Bind _ _ _ _) = True"
| "is_Bind _ = False"

text \<open>The calls that push the noise of the current value: into \<open>u.noise\<close> and into a module.\<close>

fun is_noise_config :: "event \<Rightarrow> bool" where
  "is_noise_config (Noise_set_noise _ _ _) = True"
| "is_noise_config (Set_noise _) = True"
| "is_noise_config _ = False"

text \<open>The report of a pass and the resets of the monitor and of the terminal after it.\<close>

fun is_report :: "event \<Rightarrow> bool" where
  "is_report Final_report = True"
| "is_report Monitor_reset = True"
| "is_report Terminal_reset = True"
| "is_report _ = False"

text \<open>
  \<open>precedes P Q xs\<close>: in \<open>xs\<close> every \<open>P\<close> event comes before every \<open>Q\<close> event; from a \<open>Q\<close>
  event on there is no \<open>P\<close> event any more.
\<close>

fun precedes :: "('a \<Rightarrow> bool) \<Rightarrow> ('a \<Rightarrow> bool) \<Rightarrow> 'a list \<Rightarrow> bool" where
  "precedes P Q [] = True"
| "precedes P Q (x # xs) = ((Q x \<longrightarrow> \<not> P x \<and> (\<forall>y \<in> set xs. \<not> P y)) \<and> precedes P Q xs)"


text \<open>The Eb/N0 values a run has visited: the one of each \<open>u.noise->set_noise\<close> call, in order.\<close>

fun ebn0_of :: "event \<Rightarrow> f32 list" where
  "ebn0_of (Noise_set_noise sigma ebn0 esn0) = [ebn0]"
| "ebn0_of _ = []"

definition visited :: "run \<Rightarrow> f32 list" where
  "visited r = concat (map ebn0_of (trace r))"

subsection \<open>The binding graph\<close>

text \<open>The input sockets of a block that \<open>main\<close> binds, one entry per \<open>bind\<close> call.\<close>

definition bound_inputs :: "block_id \<Rightarrow> string list" where
  "bound_inputs b = map in_socket (filter (\<lambda>x. consumer x = b) bindings)"

text \<open>The blocks a block reads from, and the edges of the graph, producer first.\<close>

definition producers_of :: "block_id \<Rightarrow> block_id list" where
  "producers_of b = map producer (filter (\<lambda>x. consumer x = b) bindings)"

definition edges :: "(block_id \<times> block_id) set" where
  "edges = set (map (\<lambda>x. (producer x, consumer x)) bindings)"

text \<open>A numbering of the blocks along the chain, the source first.\<close>

fun stage :: "block_id \<Rightarrow> nat" where
  "stage Bl_source = 0"
| "stage Bl_splitter = 1"
| "stage Bl_encoder = 2"
| "stage Bl_modulator = 3"
| "stage Bl_channel = 4"
| "stage Bl_demodulator = 5"
| "stage Bl_decoder = 6"
| "stage Bl_monitor = 7"

subsection \<open>Finished runs and scenarios\<close>

text \<open>The parameters as a successful \<open>init_params\<close> leaves them.\<close>

definition parsed_params :: "env \<Rightarrow> f32 \<Rightarrow> params" where
  "parsed_params e r0 = (new_params r0)\<lparr>R := code_rate e\<rparr>"

text \<open>
  The run of a command line that parses and whose sweep makes \<open>n\<close> passes, at the values
  0, 1, ..., n - 1.
\<close>

definition finished_run :: "env \<Rightarrow> f32 \<Rightarrow> nat \<Rightarrow> run" where
  "finished_run e r0 n =
     \<lparr> before_sweep =
         [Print_banner, Command_parser, Print_parameters, Print_warnings]
         @ fst (init_modules e (parsed_params e r0)) @ init_utils @ [Legend]
         @ new_blocks (parsed_params e r0) @ map bind_event bindings,
       passes = map (\<lambda>k. loop_body e (parsed_params e r0) (Finite (of_nat k))) [0..<n],
       after_sweep = [Stats_show, Print_end] @ map Delete_block (rev blocks),
       status = 0,
       mods = Some (snd (init_modules e (parsed_params e r0))) \<rparr>"

text \<open>
  A frame-error limit ends pass 0 at the sixth poll; the user interrupts pass 1 and pass 2,
  and after pass 2 the terminal reports that the simulation is over. The two conversions
  stand for those of AFF3CT.
\<close>

definition env_ctrl_c :: env where
  "env_ctrl_c =
     \<lparr> parsing_failed = False, enc_K = 32, enc_N_cw = 128, modem_bps = 1, modem_cpm_upf = 1,
       ebn0_to_esn0 = (\<lambda>ebn0 r bps. f32_add ebn0 r), esn0_to_sigma = (\<lambda>esn0 upf. esn0),
       built_tasks = (\<lambda>md. [\<lparr>autoalloc = False, autoexec = True, debug = True,
                              debug_limit = 0, stats = False, fast = False\<rparr>]),
       fe_limit_achieved = (\<lambda>k n. k = 0 \<and> 5 \<le> n),
       is_interrupt = (\<lambda>k n. 1 \<le> k \<and> 3 \<le> n),
       is_over = (\<lambda>k. 2 \<le> k) \<rparr>"

definition run_ctrl_c :: run where
  "run_ctrl_c = finished_run env_ctrl_c NaN 3"

text \<open>The same, with a command line that does not parse.\<close>

definition env_bad_args :: env where
  "env_bad_args = env_ctrl_c\<lparr>parsing_failed := True\<rparr>"

text \<open>No interrupt at all: every pass ends by the frame-error limit, at the third poll.\<close>

definition env_quiet :: env where
  "env_quiet =
     env_ctrl_c\<lparr>fe_limit_achieved := (\<lambda>k n. 2 \<le> n), is_interrupt := (\<lambda>k n. False),
                is_over := (\<lambda>k. False)\<rparr>"

definition run_quiet :: run where
  "run_quiet = finished_run env_quiet NaN 11"

text \<open>The terminal reports that the simulation is over right after pass 0.\<close>

definition env_over :: env where
  "env_over = env_ctrl_c\<lparr>is_interrupt := (\<lambda>k n. 3 \<le> n), is_over := (\<lambda>k. True)\<rparr>"

definition run_over :: run where
  "run_over = finished_run env_over NaN 1"

section \<open>Facts about the model\<close>

subsection \<open>The values of the sweep in binary32\<close>

lemma f32_round_0: "f32_round 0 = Finite 0"
  by (simp add: f32_round_def)

lemma f32_round_max: "f32_round (1001 / 100) = Finite (5248123 / 524288)"
  by code_simp

lemma f32_round_small:
  "f32_round 1 = Finite 1"
  "f32_round 2 = Finite 2"
  "f32_round 3 = Finite 3"
  "f32_round 4 = Finite 4"
  "f32_round 5 = Finite 5"
  "f32_round 6 = Finite 6"
  "f32_round 7 = Finite 7"
  "f32_round 8 = Finite 8"
  "f32_round 9 = Finite 9"
  "f32_round 10 = Finite 10"
  "f32_round 11 = Finite 11"
  by code_simp+

lemma below_11:
  "k < 11 \<Longrightarrow>
   k = 0 \<or> k = 1 \<or> k = 2 \<or> k = 3 \<or> k = 4 \<or> k = 5 \<or> k = 6 \<or> k = 7 \<or> k = 8 \<or> k = 9 \<or> k = (10 :: nat)"
  by arith

lemma f32_add_step:
  assumes "k < 11"
  shows "f32_add (Finite (of_nat k)) (Finite 1) = Finite (of_nat (Suc k))"
  using below_11 [OF assms] by (elim disjE) (simp_all add: f32_round_small)

lemma f32_less_max: "f32_less (Finite (of_nat k)) (Finite (5248123 / 524288)) \<longleftrightarrow> k < 11"
proof -
  have "(of_nat k :: rat) < 5248123 / 524288 \<longleftrightarrow> (of_nat k :: rat) * 524288 < 5248123"
    by (simp add: pos_less_divide_eq)
  also have "\<dots> \<longleftrightarrow> (of_nat (k * 524288) :: rat) < of_nat 5248123"
    by simp
  also have "\<dots> \<longleftrightarrow> k * 524288 < 5248123"
    by (simp only: of_nat_less_iff)
  also have "\<dots> \<longleftrightarrow> k < 11" by arith
  finally show ?thesis by simp
qed

subsection \<open>The watchdog loop\<close>

lemma loop_stops:
  "m \<le> n \<Longrightarrow> fe n \<or> intr n \<Longrightarrow> (\<forall>j. m \<le> j \<and> j < n \<longrightarrow> \<not> fe j \<and> \<not> intr j) \<Longrightarrow>
   th_done_verif_loop fe intr m = Some n"
proof (induction "n - m" arbitrary: m)
  case 0
  then have "m = n" by simp
  with 0 show ?case by (subst th_done_verif_loop.simps) auto
next
  case (Suc d)
  then have "m < n" by simp
  with Suc.prems have quiet: "\<not> fe m \<and> \<not> intr m" by simp
  have "th_done_verif_loop fe intr (Suc m) = Some n"
    using Suc.hyps(1) [of "Suc m"] Suc.hyps(2) Suc.prems \<open>m < n\<close> by auto
  with quiet show ?case by (subst th_done_verif_loop.simps) simp
qed

lemma loop_result:
  assumes "th_done_verif_loop fe intr m = Some n"
  shows "m \<le> n \<and> (fe n \<or> intr n) \<and> (\<forall>j. m \<le> j \<and> j < n \<longrightarrow> \<not> fe j \<and> \<not> intr j)"
proof (rule th_done_verif_loop.raw_induct
    [where P = "\<lambda>fe intr m n. m \<le> n \<and> (fe n \<or> intr n)
                  \<and> (\<forall>j. m \<le> j \<and> j < n \<longrightarrow> \<not> fe j \<and> \<not> intr j)", OF _ assms])
  fix loop :: "(nat \<Rightarrow> bool) \<Rightarrow> (nat \<Rightarrow> bool) \<Rightarrow> nat \<Rightarrow> nat option" and fe intr m n
  assume IH: "\<And>fe intr m n. loop fe intr m = Some n \<Longrightarrow>
     m \<le> n \<and> (fe n \<or> intr n) \<and> (\<forall>j. m \<le> j \<and> j < n \<longrightarrow> \<not> fe j \<and> \<not> intr j)"
    and step: "(if \<not> fe m \<and> \<not> intr m then loop fe intr (Suc m) else Some m) = Some n"
  show "m \<le> n \<and> (fe n \<or> intr n) \<and> (\<forall>j. m \<le> j \<and> j < n \<longrightarrow> \<not> fe j \<and> \<not> intr j)"
  proof (cases "\<not> fe m \<and> \<not> intr m")
    case True
    with step have "loop fe intr (Suc m) = Some n" by simp
    from IH [OF this] have later: "Suc m \<le> n" "fe n \<or> intr n"
      "\<And>j. Suc m \<le> j \<Longrightarrow> j < n \<Longrightarrow> \<not> fe j \<and> \<not> intr j" by auto
    have "\<not> fe j \<and> \<not> intr j" if "m \<le> j" "j < n" for j
    proof (cases "j = m")
      case True
      with \<open>\<not> fe m \<and> \<not> intr m\<close> show ?thesis by simp
    next
      case False
      with that have "Suc m \<le> j" by simp
      with later(3) that show ?thesis by simp
    qed
    with later show ?thesis by simp
  next
    case False
    with step have "m = n" by (simp split: if_splits)
    with False show ?thesis by auto
  qed
qed

lemma loop_iff:
  "th_done_verif_loop fe intr m = Some n \<longleftrightarrow>
   m \<le> n \<and> (fe n \<or> intr n) \<and> (\<forall>j. m \<le> j \<and> j < n \<longrightarrow> \<not> fe j \<and> \<not> intr j)"
  using loop_stops [of m n fe intr] loop_result [of fe intr m n] by blast

lemma loop_returns:
  assumes "m \<le> j" "fe j \<or> intr j"
  shows "\<exists>n. th_done_verif_loop fe intr m = Some n \<and> n \<le> j"
proof -
  let ?P = "\<lambda>i. m \<le> i \<and> (fe i \<or> intr i)"
  define n where "n = (LEAST i. ?P i)"
  have Pj: "?P j" using assms by simp
  have n: "?P n" unfolding n_def by (rule LeastI [of ?P j, OF Pj])
  have le: "n \<le> j" unfolding n_def by (rule Least_le [of ?P j, OF Pj])
  have "\<not> ?P i" if "i < n" for i
    using that unfolding n_def by (rule not_less_Least)
  then have "\<forall>i. m \<le> i \<and> i < n \<longrightarrow> \<not> fe i \<and> \<not> intr i" by blast
  with n have "th_done_verif_loop fe intr m = Some n" by (simp add: loop_stops)
  with le show ?thesis by blast
qed

lemma th_done_verif_iff:
  "th_done_verif fe intr d0 = Some (d, n) \<longleftrightarrow>
   d \<and> (fe n \<or> intr n) \<and> (\<forall>j<n. \<not> fe j \<and> \<not> intr j)"
proof -
  have "th_done_verif fe intr d0 = Some (d, n) \<longleftrightarrow> d \<and> th_done_verif_loop fe intr 0 = Some n"
    by (cases "th_done_verif_loop fe intr 0") (auto simp: th_done_verif_def)
  then show ?thesis by (simp add: loop_iff)
qed

lemma th_done_verif_returns:
  assumes "fe j \<or> intr j"
  shows "\<exists>n\<le>j. th_done_verif fe intr d0 = Some (True, n)"
proof -
  from loop_returns [of 0 j fe intr] assms
  obtain n where "th_done_verif_loop fe intr 0 = Some n" "n \<le> j" by auto
  then show ?thesis by (auto simp: th_done_verif_def)
qed

lemma iteration_loop:
  "iteration e p k v =
     (case th_done_verif_loop (fe_limit_achieved e k) (is_interrupt e k) 0 of
        None \<Rightarrow> None
      | Some n \<Rightarrow> Some (loop_body e p v))"
  by (simp add: iteration_def th_done_verif_def split: option.split)

lemma iteration_Some:
  "iteration e p k v = Some it \<Longrightarrow> it = loop_body e p v"
  by (simp add: iteration_loop split: option.splits)

lemma iteration_returns:
  assumes "fe_limit_achieved e k j \<or> is_interrupt e k j"
  shows "iteration e p k v = Some (loop_body e p v)"
proof -
  from loop_returns [of 0 j "fe_limit_achieved e k" "is_interrupt e k"] assms
  obtain n where "th_done_verif_loop (fe_limit_achieved e k) (is_interrupt e k) 0 = Some n"
    by auto
  then show ?thesis by (simp add: iteration_loop)
qed

lemma iteration_polls:
  assumes "iteration e p k v = Some it"
  shows "\<exists>n. th_done_verif (fe_limit_achieved e k) (is_interrupt e k) False = Some (True, n)"
  using assms by (auto simp: iteration_def split: option.splits simp: th_done_verif_def)

subsection \<open>The sweep with the built-in range\<close>

lemma sweep_default_result:
  assumes p: "ebn0_max p = Finite (5248123 / 524288)" "ebn0_step p = Finite 1"
  shows "k \<le> 11 \<Longrightarrow> sweep e p k (Finite (of_nat k)) done = Some res \<Longrightarrow>
     \<exists>n. k \<le> n \<and> n \<le> 11 \<and> (k < 11 \<longrightarrow> k < n)
       \<and> res = done @ map (\<lambda>j. loop_body e p (Finite (of_nat j))) [k..<n]
       \<and> (\<forall>j. k \<le> j \<and> j < n \<longrightarrow> iteration e p j (Finite (of_nat j)) \<noteq> None)
       \<and> (\<forall>j. k \<le> j \<and> Suc j < n \<longrightarrow> \<not> is_over e j)
       \<and> (n < 11 \<longrightarrow> is_over e (n - 1))"
proof (induction "11 - k" arbitrary: k "done")
  case 0
  then have k: "k = 11" by simp
  have "sweep e p k (Finite (of_nat k)) done = Some done"
    by (subst sweep.simps) (simp add: p f32_less_max [of 11, simplified] k)
  with 0 have "res = done" by simp
  with k show ?case by (intro exI [of _ 11]) auto
next
  case (Suc d)
  then have k: "k < 11" by simp
  let ?v = "Finite (of_nat k)"
  have step: "sweep e p k ?v done =
      (case iteration e p k ?v of
         None \<Rightarrow> None
       | Some it \<Rightarrow>
           if is_over e k then Some (done @ [it])
           else sweep e p (Suc k) (f32_add ?v (Finite 1)) (done @ [it]))"
    by (subst sweep.simps, unfold p) (simp add: f32_less_max k del: f32_less.simps)
  from Suc.prems(2) obtain it where it: "iteration e p k ?v = Some it"
    and rest: "(if is_over e k then Some (done @ [it])
                else sweep e p (Suc k) (f32_add ?v (Finite 1)) (done @ [it])) = Some res"
    unfolding step by (auto split: option.splits)
  from it have it_eq: "it = loop_body e p ?v"
    by (rule iteration_Some)
  show ?case
  proof (cases "is_over e k")
    case True
    with rest have "res = done @ [it]" by simp
    with it it_eq k True show ?thesis
      by (intro exI [of _ "Suc k"]) (auto simp: less_Suc_eq_le)
  next
    case False
    with rest k have next_pass:
      "sweep e p (Suc k) (Finite (of_nat (Suc k))) (done @ [it]) = Some res"
      by (simp add: f32_add_step del: of_nat_Suc f32_add.simps)
    have d: "d = 11 - Suc k" using Suc.hyps(2) by simp
    have "Suc k \<le> 11" using k by simp
    from Suc.hyps(1) [OF d this next_pass]
    obtain n where n: "Suc k \<le> n" "n \<le> 11"
      "res = (done @ [it]) @ map (\<lambda>j. loop_body e p (Finite (of_nat j))) [Suc k..<n]"
      "\<forall>j. Suc k \<le> j \<and> j < n \<longrightarrow> iteration e p j (Finite (of_nat j)) \<noteq> None"
      "\<forall>j. Suc k \<le> j \<and> Suc j < n \<longrightarrow> \<not> is_over e j"
      "n < 11 \<longrightarrow> is_over e (n - 1)"
      by blast
    have upt: "[k..<n] = k # [Suc k..<n]"
      using n(1) by (simp add: upt_conv_Cons)
    have a: "\<forall>j. k \<le> j \<and> j < n \<longrightarrow> iteration e p j (Finite (of_nat j)) \<noteq> None"
      using n(4) it by (metis Suc_leI le_neq_implies_less option.distinct(1))
    have b: "\<forall>j. k \<le> j \<and> Suc j < n \<longrightarrow> \<not> is_over e j"
      using n(5) False by (metis Suc_leI le_neq_implies_less)
    show ?thesis
      using n(1,2,3,6) a b it_eq upt by (intro exI [of _ n]) simp
  qed
qed

lemma sweep_default_returns:
  assumes p: "ebn0_max p = Finite (5248123 / 524288)" "ebn0_step p = Finite 1"
  shows "k \<le> 11 \<Longrightarrow>
     (\<forall>j. k \<le> j \<and> j < 11 \<longrightarrow> (\<exists>n. fe_limit_achieved e j n \<or> is_interrupt e j n)) \<Longrightarrow>
     \<exists>res. sweep e p k (Finite (of_nat k)) done = Some res"
proof (induction "11 - k" arbitrary: k "done")
  case 0
  then have k: "k = 11" by simp
  have "sweep e p k (Finite (of_nat k)) done = Some done"
    by (subst sweep.simps) (simp add: p f32_less_max [of 11, simplified] k)
  then show ?case by blast
next
  case (Suc d)
  then have k: "k < 11" by simp
  let ?v = "Finite (of_nat k)"
  have step: "sweep e p k ?v done =
      (case iteration e p k ?v of
         None \<Rightarrow> None
       | Some it \<Rightarrow>
           if is_over e k then Some (done @ [it])
           else sweep e p (Suc k) (f32_add ?v (Finite 1)) (done @ [it]))"
    by (subst sweep.simps, unfold p) (simp add: f32_less_max k del: f32_less.simps)
  from Suc.prems(2) k obtain n where "fe_limit_achieved e k n \<or> is_interrupt e k n"
    by auto
  then have it: "iteration e p k ?v = Some (loop_body e p ?v)"
    by (rule iteration_returns)
  have d: "d = 11 - Suc k" using Suc.hyps(2) by simp
  have le: "Suc k \<le> 11" using k by simp
  have later: "\<forall>j. Suc k \<le> j \<and> j < 11 \<longrightarrow> (\<exists>n. fe_limit_achieved e j n \<or> is_interrupt e j n)"
    using Suc.prems(2) by simp
  from Suc.hyps(1) [OF d le later, of "done @ [loop_body e p ?v]"]
  obtain res where "sweep e p (Suc k) (Finite (of_nat (Suc k))) (done @ [loop_body e p ?v]) = Some res"
    by blast
  then show ?case
    unfolding step it using k by (simp add: f32_add_step del: of_nat_Suc f32_add.simps)
qed

lemma new_params_sweep:
  "ebn0_min (new_params r0) = Finite 0"
  "ebn0_max (new_params r0) = Finite (5248123 / 524288)"
  "ebn0_step (new_params r0) = Finite 1"
  "bl_buffer_size (new_params r0) = 16"
  "bl_n_threads (new_params r0) = 1"
  by (simp_all add: new_params_def f32_round_0 f32_round_max f32_round_small)

subsection \<open>Runs of \<open>main\<close>\<close>

lemma parsed_params_sweep:
  "ebn0_min (parsed_params e r0) = Finite 0"
  "ebn0_max (parsed_params e r0) = Finite (5248123 / 524288)"
  "ebn0_step (parsed_params e r0) = Finite 1"
  "bl_buffer_size (parsed_params e r0) = 16"
  "bl_n_threads (parsed_params e r0) = 1"
  "R (parsed_params e r0) = code_rate e"
  by (simp_all add: parsed_params_def new_params_sweep)

lemma main_failed:
  "parsing_failed e \<Longrightarrow>
   main e r0 = Some \<lparr> before_sweep = [Print_banner, Command_parser, Print_help,
                                        Print_warnings, Print_errors],
                       passes = [], after_sweep = [], status = 1, mods = None \<rparr>"
  by (simp add: main_def init_params_def)

lemma main_parsed_unfold:
  assumes "\<not> parsing_failed e"
  shows "main e r0 =
     (case sweep e (parsed_params e r0) 0 (Finite 0) [] of
        None \<Rightarrow> None
      | Some its \<Rightarrow> Some ((finished_run e r0 0)\<lparr>passes := its\<rparr>))"
  using assms
  by (simp add: main_def init_params_def finished_run_def case_prod_beta
      parsed_params_sweep parsed_params_def [symmetric] split: option.split)

lemma main_parsed:
  assumes "\<not> parsing_failed e" "main e r0 = Some r"
  shows "\<exists>n. r = finished_run e r0 n \<and> 1 \<le> n \<and> n \<le> 11
     \<and> (\<forall>j<n. iteration e (parsed_params e r0) j (Finite (of_nat j)) \<noteq> None)
     \<and> (\<forall>j. Suc j < n \<longrightarrow> \<not> is_over e j)
     \<and> (n < 11 \<longrightarrow> is_over e (n - 1))"
proof -
  let ?p = "parsed_params e r0"
  from assms obtain its where its: "sweep e ?p 0 (Finite (of_nat 0)) [] = Some its"
    and r: "r = (finished_run e r0 0)\<lparr>passes := its\<rparr>"
    by (auto simp: main_parsed_unfold split: option.splits)
  from sweep_default_result [OF parsed_params_sweep(2,3) _ its]
  obtain n where n: "0 < n" "n \<le> 11"
    "its = map (\<lambda>j. loop_body e ?p (Finite (of_nat j))) [0..<n]"
    "\<forall>j. 0 \<le> j \<and> j < n \<longrightarrow> iteration e ?p j (Finite (of_nat j)) \<noteq> None"
    "\<forall>j. 0 \<le> j \<and> Suc j < n \<longrightarrow> \<not> is_over e j"
    "n < 11 \<longrightarrow> is_over e (n - 1)"
    by auto
  from r n(3) have "r = finished_run e r0 n"
    by (simp add: finished_run_def)
  with n show ?thesis by (intro exI [of _ n]) simp
qed

lemma main_returns:
  assumes "\<not> parsing_failed e"
    and "\<forall>j<11. \<exists>n. fe_limit_achieved e j n \<or> is_interrupt e j n"
  shows "\<exists>r. main e r0 = Some r"
proof -
  have "\<forall>j. 0 \<le> j \<and> j < 11 \<longrightarrow> (\<exists>n. fe_limit_achieved e j n \<or> is_interrupt e j n)"
    using assms(2) by simp
  from sweep_default_returns [OF parsed_params_sweep(2,3) _ this]
  have "\<exists>its. sweep e (parsed_params e r0) 0 (Finite (of_nat 0)) [] = Some its"
    by simp
  then obtain its where "sweep e (parsed_params e r0) 0 (Finite (of_nat 0)) [] = Some its"
    by blast
  with assms(1) show ?thesis by (simp add: main_parsed_unfold)
qed

lemma passes_finished_run:
  "passes (finished_run e r0 n) =
     map (\<lambda>k. loop_body e (parsed_params e r0) (Finite (of_nat k))) [0..<n]"
  "length (passes (finished_run e r0 n)) = n"
  "k < n \<Longrightarrow> passes (finished_run e r0 n) ! k = loop_body e (parsed_params e r0) (Finite (of_nat k))"
  by (simp_all add: finished_run_def)

lemma main_stops_at:
  assumes "\<not> parsing_failed e" "main e r0 = Some r"
    and "is_over e m" "\<forall>j<m. \<not> is_over e j" "m < 11"
  shows "r = finished_run e r0 (Suc m)"
proof -
  from main_parsed [OF assms(1,2)]
  obtain n where n: "r = finished_run e r0 n" "1 \<le> n" "n \<le> 11"
    "\<forall>j. Suc j < n \<longrightarrow> \<not> is_over e j" "n < 11 \<longrightarrow> is_over e (n - 1)"
    by blast
  have "\<not> Suc m < n" using n(4) assms(3) by blast
  moreover have "\<not> n < Suc m"
  proof
    assume "n < Suc m"
    with assms(5) n(2) have "n < 11" "n - 1 < m" by simp_all
    with n(5) assms(4) show False by blast
  qed
  ultimately have "n = Suc m" by simp
  with n(1) show ?thesis by simp
qed

lemma main_full:
  assumes "\<not> parsing_failed e" "main e r0 = Some r"
    and "\<forall>j<10. \<not> is_over e j"
  shows "r = finished_run e r0 11"
proof -
  from main_parsed [OF assms(1,2)]
  obtain n where n: "r = finished_run e r0 n" "1 \<le> n" "n \<le> 11"
    "n < 11 \<longrightarrow> is_over e (n - 1)"
    by blast
  have "\<not> n < 11"
  proof
    assume "n < 11"
    with n(2) have "n - 1 < 10" by simp
    with n(4) \<open>n < 11\<close> assms(3) show False by blast
  qed
  with n(3) have "n = 11" by simp
  with n(1) show ?thesis by simp
qed

subsection \<open>The scenarios\<close>

lemma ctrl_c_parses: "\<not> parsing_failed env_ctrl_c"
  by (simp add: env_ctrl_c_def)

lemma main_ctrl_c: "main env_ctrl_c NaN = Some run_ctrl_c"
proof -
  have "\<forall>j<11. \<exists>n. fe_limit_achieved env_ctrl_c j n \<or> is_interrupt env_ctrl_c j n"
    by (intro allI impI exI [of _ 5]) (auto simp: env_ctrl_c_def)
  from main_returns [OF ctrl_c_parses this]
  obtain r where r: "main env_ctrl_c NaN = Some r" by blast
  have "r = finished_run env_ctrl_c NaN (Suc 2)"
    by (rule main_stops_at [OF ctrl_c_parses r]) (simp_all add: env_ctrl_c_def)
  with r show ?thesis by (simp add: run_ctrl_c_def numeral_3_eq_3)
qed

lemma quiet_parses: "\<not> parsing_failed env_quiet"
  by (simp add: env_quiet_def env_ctrl_c_def)

lemma main_quiet: "main env_quiet NaN = Some run_quiet"
proof -
  have "\<forall>j<11. \<exists>n. fe_limit_achieved env_quiet j n \<or> is_interrupt env_quiet j n"
    by (intro allI impI exI [of _ 2]) (simp add: env_quiet_def)
  from main_returns [OF quiet_parses this]
  obtain r where r: "main env_quiet NaN = Some r" by blast
  have "r = finished_run env_quiet NaN 11"
    by (rule main_full [OF quiet_parses r]) (simp add: env_quiet_def)
  with r show ?thesis by (simp add: run_quiet_def)
qed

lemma over_parses: "\<not> parsing_failed env_over"
  by (simp add: env_over_def env_ctrl_c_def)

lemma main_over: "main env_over NaN = Some run_over"
proof -
  have "\<forall>j<11. \<exists>n. fe_limit_achieved env_over j n \<or> is_interrupt env_over j n"
    by (intro allI impI exI [of _ 3]) (simp add: env_over_def)
  from main_returns [OF over_parses this]
  obtain r where r: "main env_over NaN = Some r" by blast
  have "r = finished_run env_over NaN (Suc 0)"
    by (rule main_stops_at [OF over_parses r]) (simp_all add: env_over_def)
  with r show ?thesis by (simp add: run_over_def)
qed

subsection \<open>One pass of the loop body\<close>

lemma loop_body_events:
  "loop_body e p v =
     [Noise_set_noise (esn0_to_sigma e (ebn0_to_esn0 e v (R p) (modem_bps e)) (modem_cpm_upf e))
        v (ebn0_to_esn0 e v (R p) (modem_bps e)),
      Set_noise M_codec, Set_noise M_demodulator, Set_noise M_channel,
      Start_temp_report, Thread_start,
      Run Bl_source, Run Bl_encoder, Run Bl_modulator, Run Bl_channel,
      Run Bl_demodulator, Run Bl_decoder, Run Bl_splitter, Run Bl_monitor,
      Join Bl_source, Join Bl_encoder, Join Bl_modulator, Join Bl_channel,
      Join Bl_demodulator, Join Bl_decoder, Join Bl_splitter, Join Bl_monitor,
      Reset Bl_source, Reset Bl_encoder, Reset Bl_modulator, Reset Bl_channel,
      Reset Bl_demodulator, Reset Bl_decoder, Reset Bl_splitter, Reset Bl_monitor,
      Thread_join, Final_report, Monitor_reset, Terminal_reset]"
  by (simp add: loop_body_def Let_def blocks_def)

lemma loop_body_calls:
  "filter is_Run (loop_body e p v) = map Run blocks"
  "filter is_Join (loop_body e p v) = map Join blocks"
  "filter is_Reset (loop_body e p v) = map Reset blocks"
  "filter (\<lambda>ev. ev = Thread_start) (loop_body e p v) = [Thread_start]"
  "filter is_New_block (loop_body e p v) = []"
  "filter is_Delete_block (loop_body e p v) = []"
  "filter is_Bind (loop_body e p v) = []"
  "filter is_report (loop_body e p v) = [Final_report, Monitor_reset, Terminal_reset]"
  by (simp_all add: loop_body_events blocks_def)

lemma loop_body_noise:
  "filter is_noise_config (loop_body e p v) =
     [Noise_set_noise (esn0_to_sigma e (ebn0_to_esn0 e v (R p) (modem_bps e)) (modem_cpm_upf e))
        v (ebn0_to_esn0 e v (R p) (modem_bps e)),
      Set_noise M_codec, Set_noise M_demodulator, Set_noise M_channel]"
  by (simp add: loop_body_events)

lemma loop_body_order:
  "precedes is_noise_config is_Run (loop_body e p v)"
  "precedes is_Run is_Join (loop_body e p v)"
  "precedes is_Join is_Reset (loop_body e p v)"
  "precedes is_Reset is_report (loop_body e p v)"
  "precedes (\<lambda>ev. ev = Thread_start) is_Run (loop_body e p v)"
  by (simp_all add: loop_body_events)

lemma ebn0_of_loop_body: "concat (map ebn0_of (loop_body e p v)) = [v]"
  by (simp add: loop_body_events)

lemma run_has_passes:
  assumes "main e r0 = Some r" "k < length (passes r)"
  shows "\<not> parsing_failed e"
proof
  assume "parsing_failed e"
  from main_failed [OF this, of r0] assms(1) have "passes r = []" by auto
  with assms(2) show False by simp
qed

lemma pass_of_run:
  assumes "main e r0 = Some r" "k < length (passes r)"
  shows "passes r ! k = loop_body e (parsed_params e r0) (Finite (of_nat k))"
    and "iteration e (parsed_params e r0) k (Finite (of_nat k)) \<noteq> None"
    and "k < 11"
proof -
  from main_parsed [OF run_has_passes [OF assms] assms(1)]
  obtain n where n: "r = finished_run e r0 n" "n \<le> 11"
    "\<forall>j<n. iteration e (parsed_params e r0) j (Finite (of_nat j)) \<noteq> None"
    by blast
  from assms(2) n(1) have k: "k < n" by (simp add: passes_finished_run)
  with n show "passes r ! k = loop_body e (parsed_params e r0) (Finite (of_nat k))"
    and "iteration e (parsed_params e r0) k (Finite (of_nat k)) \<noteq> None"
    and "k < 11"
    by (simp_all add: passes_finished_run)
qed

subsection \<open>The loops of \<open>init_modules\<close>\<close>

lemma set_task_modes_fields:
  "autoalloc (set_task_modes t)" "\<not> autoexec (set_task_modes t)" "\<not> debug (set_task_modes t)"
  "debug_limit (set_task_modes t) = 16" "stats (set_task_modes t)"
  "fast (set_task_modes t) = fast t"
  by (simp_all add: set_task_modes_def)

lemma fast_guard_false: "\<not> fast_guard (set_task_modes t)"
  by (simp add: fast_guard_def set_task_modes_fields)

lemma configure_task_eq: "configure_task t = set_task_modes t"
  by (simp add: configure_task_def fast_guard_false)

lemma configure_task_idem: "configure_task (configure_task t) = configure_task t"
  by (simp add: configure_task_eq set_task_modes_def)

lemma configure_modules_apply:
  "configure_modules mds ts md =
     (if md \<in> set mds then map configure_task (ts md) else ts md)"
proof (induction mds arbitrary: ts)
  case Nil
  show ?case by simp
next
  case (Cons a mds)
  show ?case
    by (simp add: Cons.IH configure_task_idem comp_def)
qed

lemma init_modules_result:
  "m_list (snd (init_modules e p)) =
     [M_source, M_splitter, M_modulator, M_demodulator, M_channel, M_monitor, M_encoder, M_decoder]"
  "tasks (snd (init_modules e p)) md =
     (if md = M_codec then built_tasks e md else map configure_task (built_tasks e md))"
  "handlers_check (snd (init_modules e p)) = [Decoder_reset M_decoder]"
  by (cases md; simp add: init_modules_def Let_def configure_modules_apply)+

text \<open>
  The last statement of \<open>init_modules\<close> registers the reset of the decoder as a handler of
  the monitor's check. What the monitor and the blocks do with the handler is outside
  \<open>main.cpp\<close>.
\<close>

lemma decoder_reset_registered:
  "Add_handler_check (Decoder_reset M_decoder) \<in> set (fst (init_modules e p))"
  "last (fst (init_modules e p)) = Add_handler_check (Decoder_reset M_decoder)"
  by (simp_all add: init_modules_def Let_def)

subsection \<open>Order in a trace\<close>

lemma precedes_append:
  "precedes P Q (xs @ ys) \<longleftrightarrow>
     precedes P Q xs \<and> precedes P Q ys \<and> ((\<exists>x \<in> set xs. Q x) \<longrightarrow> (\<forall>y \<in> set ys. \<not> P y))"
  by (induction xs) auto

lemma precedes_no_later: "filter Q xs = [] \<Longrightarrow> precedes P Q xs"
  by (induction xs) (auto split: if_splits)

lemma precedes_no_earlier: "filter P xs = [] \<Longrightarrow> precedes P Q xs"
  by (induction xs) (auto simp: filter_empty_conv split: if_splits)

lemma precedes_nth:
  "precedes P Q xs \<longleftrightarrow>
     (\<forall>i j. i < length xs \<and> j < length xs \<and> P (xs ! i) \<and> Q (xs ! j) \<longrightarrow> i < j)"
proof (induction xs)
  case Nil
  show ?case by simp
next
  case (Cons x xs)
  let ?R = "\<lambda>zs. \<forall>i j. i < length zs \<and> j < length zs \<and> P (zs ! i) \<and> Q (zs ! j) \<longrightarrow> i < j"
  have tail: "(\<forall>y \<in> set xs. \<not> P y) \<longleftrightarrow> (\<forall>i<length xs. \<not> P (xs ! i))"
    by (simp add: all_set_conv_all_nth)
  show ?case
  proof
    assume L: "precedes P Q (x # xs)"
    then have xs: "?R xs" using Cons.IH by simp
    show "?R (x # xs)"
    proof (intro allI impI)
      fix i j
      assume H: "i < length (x # xs) \<and> j < length (x # xs) \<and> P ((x # xs) ! i) \<and> Q ((x # xs) ! j)"
      show "i < j"
      proof (cases j)
        case 0
        with H have "Q x" by simp
        with L have no: "\<not> P x" "\<forall>i<length xs. \<not> P (xs ! i)" using tail by simp_all
        from H no show ?thesis by (cases i) auto
      next
        case (Suc j')
        show ?thesis
        proof (cases i)
          case 0
          with Suc show ?thesis by simp
        next
          case (Suc i')
          with H \<open>j = Suc j'\<close> xs show ?thesis by auto
        qed
      qed
    qed
  next
    assume R: "?R (x # xs)"
    have "?R xs"
    proof (intro allI impI)
      fix i j
      assume "i < length xs \<and> j < length xs \<and> P (xs ! i) \<and> Q (xs ! j)"
      with R [rule_format, of "Suc i" "Suc j"] show "i < j" by simp
    qed
    then have IH: "precedes P Q xs" using Cons.IH by simp
    have "\<not> P x \<and> (\<forall>i<length xs. \<not> P (xs ! i))" if "Q x"
    proof (intro conjI allI impI)
      from R [rule_format, of 0 0] that show "\<not> P x" by auto
    next
      fix i assume "i < length xs"
      with R [rule_format, of "Suc i" 0] that show "\<not> P (xs ! i)" by auto
    qed
    with IH tail show "precedes P Q (x # xs)" by simp
  qed
qed

subsection \<open>The trace of a finished run\<close>

lemma filter_passes_none:
  assumes "\<And>v. filter P (loop_body e p v) = []"
  shows "filter P (concat (map (\<lambda>k. loop_body e p (f k)) ks)) = []"
  by (induction ks) (simp_all add: assms)

lemma before_sweep_calls:
  "filter is_Bind (before_sweep (finished_run e r0 n)) = map bind_event bindings"
  "filter is_Run (before_sweep (finished_run e r0 n)) = []"
  "filter is_Delete_block (before_sweep (finished_run e r0 n)) = []"
  "filter is_New_block (before_sweep (finished_run e r0 n)) =
     [New_block Bl_source M_source Src_generate 16 1,
      New_block Bl_encoder M_encoder Enc_encode 16 1,
      New_block Bl_modulator M_modulator Mdm_modulate 16 1,
      New_block Bl_channel M_channel Chn_add_noise 16 1,
      New_block Bl_demodulator M_demodulator Mdm_demodulate 16 1,
      New_block Bl_decoder M_decoder Dec_decode_siho 16 1,
      New_block Bl_splitter M_splitter Spl_split 16 1,
      New_block Bl_monitor M_monitor Mnt_check_errors 16 1]"
  "concat (map ebn0_of (before_sweep (finished_run e r0 n))) = []"
  by (simp_all add: finished_run_def init_modules_def init_utils_def new_blocks_def
      bindings_def bind_event_def parsed_params_sweep)

lemma after_sweep_calls:
  "filter is_Bind (after_sweep (finished_run e r0 n)) = []"
  "filter is_Run (after_sweep (finished_run e r0 n)) = []"
  "filter is_New_block (after_sweep (finished_run e r0 n)) = []"
  "filter is_Delete_block (after_sweep (finished_run e r0 n)) =
     map Delete_block (rev blocks)"
  "concat (map ebn0_of (after_sweep (finished_run e r0 n))) = []"
  by (simp_all add: finished_run_def blocks_def)

lemma sweep_calls:
  "filter is_Bind (concat (passes (finished_run e r0 n))) = []"
  "filter is_New_block (concat (passes (finished_run e r0 n))) = []"
  "filter is_Delete_block (concat (passes (finished_run e r0 n))) = []"
  by (simp_all add: passes_finished_run filter_passes_none loop_body_calls)

lemma visited_finished_run:
  "visited (finished_run e r0 n) = map (\<lambda>k. Finite (of_nat k)) [0..<n]"
proof -
  have "concat (map ebn0_of (concat (map (\<lambda>k. loop_body e p (Finite (of_nat k))) [0..<n])))
      = map (\<lambda>k. Finite (of_nat k)) [0..<n]" for p
    by (induction n) (simp_all add: ebn0_of_loop_body)
  then show ?thesis
    by (simp add: visited_def trace_def before_sweep_calls after_sweep_calls
        passes_finished_run)
qed

subsection \<open>The graph of the bindings\<close>

lemma bound_once:
  "s \<in> set (bound_inputs b) \<longleftrightarrow>
     length (filter (\<lambda>x. consumer x = b \<and> in_socket x = s) bindings) = 1"
  by (cases b) (auto simp: bound_inputs_def bindings_def)

lemma edges_eq:
  "edges = {(Bl_source, Bl_splitter), (Bl_splitter, Bl_encoder), (Bl_encoder, Bl_modulator),
            (Bl_modulator, Bl_channel), (Bl_channel, Bl_demodulator),
            (Bl_demodulator, Bl_decoder), (Bl_splitter, Bl_monitor), (Bl_decoder, Bl_monitor)}"
  by (auto simp: edges_def bindings_def)

lemma edges_stage: "(a, b) \<in> edges \<Longrightarrow> stage a < stage b"
  by (auto simp: edges_eq)

lemma acyclic_edges: "acyclic edges"
proof -
  have "acyclic (edges\<inverse>)"
    by (rule acyclicI_order [where f = stage]) (simp add: edges_stage)
  then show ?thesis by simp
qed

lemma reachable_from_source: "(Bl_source, b) \<in> edges\<^sup>*"
proof -
  have spl: "(Bl_source, Bl_splitter) \<in> edges\<^sup>*"
    by (rule r_into_rtrancl) (simp add: edges_eq)
  have enc: "(Bl_source, Bl_encoder) \<in> edges\<^sup>*"
    by (rule rtrancl_into_rtrancl [OF spl]) (simp add: edges_eq)
  have mdm: "(Bl_source, Bl_modulator) \<in> edges\<^sup>*"
    by (rule rtrancl_into_rtrancl [OF enc]) (simp add: edges_eq)
  have chn: "(Bl_source, Bl_channel) \<in> edges\<^sup>*"
    by (rule rtrancl_into_rtrancl [OF mdm]) (simp add: edges_eq)
  have dmd: "(Bl_source, Bl_demodulator) \<in> edges\<^sup>*"
    by (rule rtrancl_into_rtrancl [OF chn]) (simp add: edges_eq)
  have dec: "(Bl_source, Bl_decoder) \<in> edges\<^sup>*"
    by (rule rtrancl_into_rtrancl [OF dmd]) (simp add: edges_eq)
  have mnt: "(Bl_source, Bl_monitor) \<in> edges\<^sup>*"
    by (rule rtrancl_into_rtrancl [OF dec]) (simp add: edges_eq)
  from spl enc mdm chn dmd dec mnt show ?thesis by (cases b) simp_all
qed

text \<open>
  The eight \<open>bind\<close> calls as events, and what \<open>main.cpp\<close> itself fixes about them: no
  input socket is named twice, and the source is the only block that reads from no block.
  Which input sockets the tasks declare is written in AFF3CT and in the splitter, outside
  \<open>main.cpp\<close>; whether the calls name all of them is not decided here.
\<close>

lemma bind_calls:
  "map bind_event bindings =
     [Bind Bl_splitter ''U_K'' Bl_source ''U_K'',
      Bind Bl_encoder ''U_K'' Bl_splitter ''V_K1'',
      Bind Bl_modulator ''X_N1'' Bl_encoder ''X_N'',
      Bind Bl_channel ''X_N'' Bl_modulator ''X_N2'',
      Bind Bl_demodulator ''Y_N1'' Bl_channel ''Y_N'',
      Bind Bl_decoder ''Y_N'' Bl_demodulator ''Y_N2'',
      Bind Bl_monitor ''U'' Bl_splitter ''V_K2'',
      Bind Bl_monitor ''V'' Bl_decoder ''V_K'']"
  by (simp add: bindings_def bind_event_def)

lemma bind_sockets_distinct:
  "distinct (map (\<lambda>x. (consumer x, in_socket x)) bindings)"
  by (simp add: bindings_def)

lemma single_source: "producers_of b = [] \<longleftrightarrow> b = Bl_source"
  by (cases b) (simp_all add: producers_of_def bindings_def)

lemma binds_before_runs:
  "filter is_Bind (trace (finished_run e r0 n)) = map bind_event bindings"
  "precedes is_Bind is_Run (trace (finished_run e r0 n))"
proof -
  let ?r = "finished_run e r0 n"
  show "filter is_Bind (trace ?r) = map bind_event bindings"
    by (simp add: trace_def before_sweep_calls after_sweep_calls sweep_calls)
  have later: "filter is_Bind (concat (passes ?r) @ after_sweep ?r) = []"
    by (simp add: after_sweep_calls sweep_calls)
  then have "\<forall>y \<in> set (concat (passes ?r) @ after_sweep ?r). \<not> is_Bind y"
    by (simp only: filter_empty_conv)
  moreover have "precedes is_Bind is_Run (before_sweep ?r)"
    by (rule precedes_no_later) (simp add: before_sweep_calls)
  moreover have "precedes is_Bind is_Run (concat (passes ?r) @ after_sweep ?r)"
    by (rule precedes_no_earlier) (rule later)
  ultimately show "precedes is_Bind is_Run (trace ?r)"
    unfolding trace_def by (subst precedes_append) blast
qed

subsection \<open>The blocks\<close>

lemma length_run:
  assumes "\<not> parsing_failed e" and "main e r0 = Some r"
  shows "1 \<le> length (passes r)" and "length (passes r) \<le> 11"
    and "Suc k < length (passes r) \<longleftrightarrow> k < 10 \<and> (\<forall>j\<le>k. \<not> is_over e j)"
    and "r = finished_run e r0 (length (passes r))"
proof -
  from main_parsed [OF assms]
  obtain n where n: "r = finished_run e r0 n" "1 \<le> n" "n \<le> 11"
    "\<forall>j. Suc j < n \<longrightarrow> \<not> is_over e j" "n < 11 \<longrightarrow> is_over e (n - 1)"
    by blast
  have len: "length (passes r) = n" by (simp add: n(1) passes_finished_run)
  show "1 \<le> length (passes r)" "length (passes r) \<le> 11"
    using n(2,3) unfolding len by simp_all
  show "r = finished_run e r0 (length (passes r))"
    unfolding len by (rule n(1))
  have "Suc k < n \<longleftrightarrow> k < 10 \<and> (\<forall>j\<le>k. \<not> is_over e j)"
  proof
    assume a: "Suc k < n"
    with n(3) have "k < 10" by simp
    moreover have "\<not> is_over e j" if "j \<le> k" for j
      using n(4) that a by simp
    ultimately show "k < 10 \<and> (\<forall>j\<le>k. \<not> is_over e j)" by blast
  next
    assume b: "k < 10 \<and> (\<forall>j\<le>k. \<not> is_over e j)"
    show "Suc k < n"
    proof (rule ccontr)
      assume "\<not> Suc k < n"
      with b n(2) have "n < 11" "n - 1 \<le> k" by simp_all
      with n(5) b show False by blast
    qed
  qed
  then show "Suc k < length (passes r) \<longleftrightarrow> k < 10 \<and> (\<forall>j\<le>k. \<not> is_over e j)"
    unfolding len .
qed

subsection \<open>Blocks at rest\<close>














section \<open>The statements about the program\<close>

subsection \<open>The watchdog thread\<close>

text \<open>
  C1. In every pass of the sweep the main thread starts the watchdog thread exactly once.
  The thread does nothing but poll the frame-error limit of the monitor and the interrupt
  flag of the terminal: it ends, with \<open>is_done\<close> set, at the first poll \<open>n\<close> at which one of
  the two holds, and at no other poll; for a pass that completes there is such a poll.
\<close>

theorem watchdog_once_per_pass:
  assumes "main e r0 = Some r" and "k < length (passes r)"
  shows "length (filter (\<lambda>ev. ev = Thread_start) (passes r ! k)) = 1
       \<and> (\<exists>n. th_done_verif (fe_limit_achieved e k) (is_interrupt e k) False = Some (True, n))
       \<and> (th_done_verif fe intr False = Some (d, n) \<longleftrightarrow>
            d \<and> (fe n \<or> intr n) \<and> (\<forall>j<n. \<not> fe j \<and> \<not> intr j))"
proof -
  from pass_of_run(2) [OF assms]
  obtain it where "iteration e (parsed_params e r0) k (Finite (of_nat k)) = Some it"
    by blast
  then have "\<exists>n. th_done_verif (fe_limit_achieved e k) (is_interrupt e k) False = Some (True, n)"
    by (rule iteration_polls)
  then show ?thesis
    by (simp add: pass_of_run(1) [OF assms] loop_body_calls th_done_verif_iff)
qed

theorem watchdog_once_per_pass_witness:
  "main env_ctrl_c NaN = Some run_ctrl_c
   \<and> 1 < length (passes run_ctrl_c)
   \<and> length (filter (\<lambda>ev. ev = Thread_start) (passes run_ctrl_c ! 1)) = 1
   \<and> th_done_verif (fe_limit_achieved env_ctrl_c 1) (is_interrupt env_ctrl_c 1) False
       = Some (True, 3)"
proof -
  have len: "1 < length (passes run_ctrl_c)"
    by (simp add: run_ctrl_c_def passes_finished_run)
  have polls: "(fe_limit_achieved env_ctrl_c 1 3 \<or> is_interrupt env_ctrl_c 1 3)
      \<and> (\<forall>j<3. \<not> fe_limit_achieved env_ctrl_c 1 j \<and> \<not> is_interrupt env_ctrl_c 1 j)"
    by (simp add: env_ctrl_c_def)
  from watchdog_once_per_pass [OF main_ctrl_c len,
      of "fe_limit_achieved env_ctrl_c 1" "is_interrupt env_ctrl_c 1" True 3] polls
  show ?thesis using main_ctrl_c len by simp
qed

subsection \<open>Joining and resetting the blocks\<close>



subsection \<open>Interrupts\<close>

text \<open>
  C3. An interrupt that the watchdog thread of a pass meets at poll \<open>n\<close> ends that thread, with
  \<open>is_done\<close> set, at poll \<open>n\<close> at the latest, and the pass still makes its final report and the
  two resets. When the terminal then does not report that the simulation is over and the
  value was not the last one, the next value gets its pass; when it does report so, the
  pass is the last one of the run.
\<close>

theorem interrupts:
  assumes "main e r0 = Some r" and "k < length (passes r)"
  shows "(is_interrupt e k n \<longrightarrow>
            (\<exists>m\<le>n. th_done_verif (fe_limit_achieved e k) (is_interrupt e k) False = Some (True, m)))
       \<and> filter is_report (passes r ! k) = [Final_report, Monitor_reset, Terminal_reset]
       \<and> (is_over e k \<longrightarrow> length (passes r) = Suc k)
       \<and> (\<not> is_over e k \<and> k < 10 \<longrightarrow>
            Suc k < length (passes r)
            \<and> passes r ! Suc k = loop_body e (parsed_params e r0) (Finite (of_nat (Suc k))))"
proof -
  note np = run_has_passes [OF assms]
  have stop: "\<exists>m\<le>n. th_done_verif (fe_limit_achieved e k) (is_interrupt e k) False = Some (True, m)"
    if "is_interrupt e k n"
    using that by (intro th_done_verif_returns) simp
  have rep: "filter is_report (passes r ! k) = [Final_report, Monitor_reset, Terminal_reset]"
    by (simp add: pass_of_run(1) [OF assms] loop_body_calls)
  have over: "length (passes r) = Suc k" if "is_over e k"
  proof -
    from length_run(3) [OF np assms(1), of k] that have "\<not> Suc k < length (passes r)"
      by blast
    with assms(2) show ?thesis by simp
  qed
  have "\<forall>j\<le>k. \<not> is_over e j" if "\<not> is_over e k"
  proof (intro allI impI)
    fix j assume "j \<le> k"
    show "\<not> is_over e j"
    proof (cases "j = k")
      case True
      with that show ?thesis by simp
    next
      case False
      with \<open>j \<le> k\<close> assms(2) have "Suc j < length (passes r)" by simp
      with length_run(3) [OF np assms(1), of j] show ?thesis by blast
    qed
  qed
  then have more: "Suc k < length (passes r)" if "\<not> is_over e k \<and> k < 10"
    using that length_run(3) [OF np assms(1), of k] by blast
  then have nxt: "passes r ! Suc k = loop_body e (parsed_params e r0) (Finite (of_nat (Suc k)))"
    if "\<not> is_over e k \<and> k < 10"
    using that pass_of_run(1) [OF assms(1), of "Suc k"] by blast
  from stop rep over more nxt show ?thesis by blast
qed

theorem interrupts_witness:
  "main env_ctrl_c NaN = Some run_ctrl_c
   \<and> 2 < length (passes run_ctrl_c)
   \<and> is_interrupt env_ctrl_c 1 3 \<and> \<not> is_over env_ctrl_c 1
   \<and> (\<exists>m\<le>3. th_done_verif (fe_limit_achieved env_ctrl_c 1) (is_interrupt env_ctrl_c 1) False
                = Some (True, m))
   \<and> filter is_report (passes run_ctrl_c ! 1) = [Final_report, Monitor_reset, Terminal_reset]
   \<and> passes run_ctrl_c ! 2 = loop_body env_ctrl_c (parsed_params env_ctrl_c NaN) (Finite 2)
   \<and> is_interrupt env_ctrl_c 2 3 \<and> is_over env_ctrl_c 2
   \<and> length (passes run_ctrl_c) = 3"
proof -
  have len: "1 < length (passes run_ctrl_c)" "2 < length (passes run_ctrl_c)"
    by (simp_all add: run_ctrl_c_def passes_finished_run)
  have facts: "is_interrupt env_ctrl_c 1 3" "\<not> is_over env_ctrl_c 1"
    "is_interrupt env_ctrl_c 2 3" "is_over env_ctrl_c 2"
    by (simp_all add: env_ctrl_c_def)
  from interrupts [OF main_ctrl_c len(1), of 3] interrupts [OF main_ctrl_c len(2), of 3]
    facts len main_ctrl_c
  show ?thesis by (simp add: numeral_2_eq_2)
qed

subsection \<open>The noise of a pass\<close>

text \<open>
  C4. The k-th pass computes \<open>esn0\<close> and \<open>sigma\<close> from its Eb/N0 value and makes exactly four
  noise calls: \<open>u.noise->set_noise(sigma, ebn0, esn0)\<close> and \<open>set_noise\<close> on the codec, the
  demodulator and the channel. All four come before the first \<open>run\<close> of the pass,
  and the pass runs each block once.
\<close>

theorem noise_before_run:
  assumes "main e r0 = Some r" and "k < length (passes r)"
  shows "(let ebn0 = Finite (of_nat k);
              esn0 = ebn0_to_esn0 e ebn0 (code_rate e) (modem_bps e);
              sigma = esn0_to_sigma e esn0 (modem_cpm_upf e)
          in filter is_noise_config (passes r ! k) =
               [Noise_set_noise sigma ebn0 esn0,
                Set_noise M_codec, Set_noise M_demodulator, Set_noise M_channel])
       \<and> precedes is_noise_config is_Run (passes r ! k)
       \<and> filter is_Run (passes r ! k) = map Run blocks"
  by (simp add: pass_of_run(1) [OF assms] loop_body_noise loop_body_order loop_body_calls
      parsed_params_sweep Let_def)

theorem noise_before_run_witness:
  "main env_ctrl_c NaN = Some run_ctrl_c
   \<and> 2 < length (passes run_ctrl_c)
   \<and> filter is_noise_config (passes run_ctrl_c ! 2) =
       [Noise_set_noise (Finite (9 / 4)) (Finite 2) (Finite (9 / 4)),
        Set_noise M_codec, Set_noise M_demodulator, Set_noise M_channel]
   \<and> precedes is_noise_config is_Run (passes run_ctrl_c ! 2)"
proof -
  have len: "2 < length (passes run_ctrl_c)"
    by (simp add: run_ctrl_c_def passes_finished_run)
  have rate: "code_rate env_ctrl_c = Finite (1 / 4)"
    unfolding code_rate_def f32_of_int_def env_ctrl_c_def by code_simp
  have esn0: "f32_add (Finite 2) (Finite (1 / 4)) = Finite (9 / 4)"
    by code_simp
  have conv: "ebn0_to_esn0 env_ctrl_c = (\<lambda>ebn0 r bps. f32_add ebn0 r)"
    "esn0_to_sigma env_ctrl_c = (\<lambda>esn0 upf. esn0)"
    by (simp_all add: env_ctrl_c_def)
  from noise_before_run [OF main_ctrl_c len] main_ctrl_c len
  show ?thesis by (simp add: rate conv esn0 Let_def del: f32_add.simps)
qed

subsection \<open>The exit status\<close>

text \<open>
  C6. When the command line does not parse, the program prints the help, the warnings and
  the errors and leaves through \<open>std::exit(1)\<close>: its whole trace is the banner and these
  calls, with no module built, no block made and none run. When it parses, a run that
  returns returns 0, also when the terminal ends the sweep early; and \<open>main\<close> does return
  as soon as the watchdog thread of each of the eleven possible passes meets a poll that
  ends it.
\<close>

theorem exit_status:
  "(parsing_failed e \<longrightarrow>
      main e r0 = Some \<lparr> before_sweep = [Print_banner, Command_parser, Print_help,
                                          Print_warnings, Print_errors],
                          passes = [], after_sweep = [], status = 1, mods = None \<rparr>)
   \<and> (parsing_failed e \<and> main e r0 = Some r \<longrightarrow>
        filter is_Build (trace r) = [] \<and> filter is_New_block (trace r) = []
        \<and> filter is_Run (trace r) = [])
   \<and> (\<not> parsing_failed e \<and> main e r0 = Some r \<longrightarrow> status r = 0)
   \<and> (\<not> parsing_failed e \<and> (\<forall>k<11. \<exists>n. fe_limit_achieved e k n \<or> is_interrupt e k n) \<longrightarrow>
        (\<exists>r'. main e r0 = Some r' \<and> status r' = 0))"
proof (intro conjI impI)
  assume "parsing_failed e"
  then show "main e r0 = Some \<lparr> before_sweep = [Print_banner, Command_parser, Print_help,
                                          Print_warnings, Print_errors],
                          passes = [], after_sweep = [], status = 1, mods = None \<rparr>"
    by (rule main_failed)
next
  assume "parsing_failed e \<and> main e r0 = Some r"
  then have "r = \<lparr> before_sweep = [Print_banner, Command_parser, Print_help,
                                   Print_warnings, Print_errors],
                   passes = [], after_sweep = [], status = 1, mods = None \<rparr>"
    using main_failed [of e r0] by simp
  then show "filter is_Build (trace r) = []" "filter is_New_block (trace r) = []"
    "filter is_Run (trace r) = []"
    by (simp_all add: trace_def)
next
  assume "\<not> parsing_failed e \<and> main e r0 = Some r"
  with main_parsed [of e r0 r] show "status r = 0"
    by (auto simp: finished_run_def)
next
  assume a: "\<not> parsing_failed e \<and> (\<forall>k<11. \<exists>n. fe_limit_achieved e k n \<or> is_interrupt e k n)"
  with main_returns [of e r0] obtain r' where r': "main e r0 = Some r'" by blast
  with a main_parsed [of e r0 r'] have "status r' = 0"
    by (auto simp: finished_run_def)
  with r' show "\<exists>r'. main e r0 = Some r' \<and> status r' = 0" by blast
qed

theorem exit_status_witness:
  "parsing_failed env_bad_args
   \<and> main env_bad_args NaN =
       Some \<lparr> before_sweep = [Print_banner, Command_parser, Print_help,
                               Print_warnings, Print_errors],
               passes = [], after_sweep = [], status = 1, mods = None \<rparr>
   \<and> \<not> parsing_failed env_over
   \<and> main env_over NaN = Some run_over
   \<and> length (passes run_over) = 1
   \<and> status run_over = 0"
proof -
  have bad: "parsing_failed env_bad_args"
    by (simp add: env_bad_args_def)
  have len: "length (passes run_over) = 1"
    by (simp add: run_over_def passes_finished_run)
  from exit_status [of env_bad_args NaN run_over] exit_status [of env_over NaN run_over]
    bad over_parses main_over len
  show ?thesis by simp
qed

subsection \<open>The values of the sweep\<close>

text \<open>
  C7, as the specification states it, fails: the terminal reports after pass 0 that the
  simulation is over, and the run visits the value 0 only, not the eleven values 0 to 10.
\<close>

theorem sweep_values_counterexample:
  "map_option visited (main env_over NaN) = Some [Finite 0]"
  by (simp add: main_over run_over_def visited_finished_run)

text \<open>
  C7, amended. With the built-in range (from 0 in steps of 1 while below the binary32 value
  of 10.01, which lies between 10 and 11) a run that gets past the command line visits the
  values 0, 1, 2, ... in increasing order, one pass and one run of each block per value.
  It visits at least one and at most eleven values: the value after \<open>k\<close> is visited if and
  only if \<open>k < 10\<close> and the terminal has not reported after any pass so far that the
  simulation is over. When the terminal never reports so, the values are exactly 0 to 10.
\<close>

theorem sweep_values:
  assumes "\<not> parsing_failed e" and "main e r0 = Some r"
  shows "ebn0_min (new_params r0) = Finite 0 \<and> ebn0_step (new_params r0) = Finite 1
       \<and> f32_less (Finite 10) (ebn0_max (new_params r0))
       \<and> \<not> f32_less (Finite 11) (ebn0_max (new_params r0))
       \<and> visited r = map (\<lambda>k. Finite (of_nat k)) [0..<length (passes r)]
       \<and> 1 \<le> length (passes r) \<and> length (passes r) \<le> 11
       \<and> (Suc k < length (passes r) \<longleftrightarrow> k < 10 \<and> (\<forall>j\<le>k. \<not> is_over e j))
       \<and> ((\<forall>j<10. \<not> is_over e j) \<longrightarrow>
            visited r = [Finite 0, Finite 1, Finite 2, Finite 3, Finite 4, Finite 5,
                         Finite 6, Finite 7, Finite 8, Finite 9, Finite 10])
       \<and> (\<forall>it \<in> set (passes r). filter is_Run it = map Run blocks)"
proof -
  note len = length_run [OF assms]
  have range: "ebn0_min (new_params r0) = Finite 0" "ebn0_step (new_params r0) = Finite 1"
    "f32_less (Finite 10) (ebn0_max (new_params r0))"
    "\<not> f32_less (Finite 11) (ebn0_max (new_params r0))"
    by (simp_all add: new_params_sweep)
  have vis: "visited r = map (\<lambda>k. Finite (of_nat k)) [0..<length (passes r)]"
    by (subst len(4)) (simp add: visited_finished_run passes_finished_run)
  have full: "visited r = [Finite 0, Finite 1, Finite 2, Finite 3, Finite 4, Finite 5,
                         Finite 6, Finite 7, Finite 8, Finite 9, Finite 10]"
    if "\<forall>j<10. \<not> is_over e j"
  proof -
    from main_full [OF assms that] have "r = finished_run e r0 11" .
    then have "visited r = map (\<lambda>k. Finite (of_nat k)) [0..<11]"
      by (simp only: visited_finished_run)
    also have "[0..<11] = [0, 1, 2, 3, 4, 5, 6, 7, 8, 9, 10 :: nat]"
      by (simp add: upt_rec)
    finally show ?thesis by simp
  qed
  have runs: "\<forall>it \<in> set (passes r). filter is_Run it = map Run blocks"
    by (subst len(4)) (auto simp: passes_finished_run loop_body_calls)
  from range vis len(1,2,3) full runs show ?thesis by blast
qed

theorem sweep_values_witness:
  "\<not> parsing_failed env_quiet
   \<and> main env_quiet NaN = Some run_quiet
   \<and> visited run_quiet = [Finite 0, Finite 1, Finite 2, Finite 3, Finite 4, Finite 5,
                          Finite 6, Finite 7, Finite 8, Finite 9, Finite 10]
   \<and> length (passes run_quiet) = 11
   \<and> \<not> parsing_failed env_ctrl_c
   \<and> main env_ctrl_c NaN = Some run_ctrl_c
   \<and> visited run_ctrl_c = [Finite 0, Finite 1, Finite 2]"
proof -
  have never: "\<forall>j<10. \<not> is_over env_quiet j"
    by (simp add: env_quiet_def)
  have len: "length (passes run_quiet) = 11" "length (passes run_ctrl_c) = 3"
    by (simp_all add: run_quiet_def run_ctrl_c_def passes_finished_run)
  have three: "[0..<3] = [0, 1, 2 :: nat]"
    by (simp add: upt_rec)
  from sweep_values [OF quiet_parses main_quiet] never
  have q: "visited run_quiet = [Finite 0, Finite 1, Finite 2, Finite 3, Finite 4, Finite 5,
                          Finite 6, Finite 7, Finite 8, Finite 9, Finite 10]"
    by blast
  from sweep_values [OF ctrl_c_parses main_ctrl_c]
  have "visited run_ctrl_c = map (\<lambda>k. Finite (of_nat k)) [0..<length (passes run_ctrl_c)]"
    by blast
  then have c: "visited run_ctrl_c = [Finite 0, Finite 1, Finite 2]"
    by (simp add: len three)
  from q c len quiet_parses main_quiet ctrl_c_parses main_ctrl_c
  show ?thesis by simp
qed

subsection \<open>The blocks\<close>

text \<open>
  C8. A run that gets past the command line makes each of the eight blocks once, all of
  them before the sweep, each with a buffer of 16 and 1 thread, the values that
  \<open>struct params\<close> fixes. No pass of the sweep makes or destroys a block: a
  pass resets each block once, and the blocks are destroyed after the sweep, when \<open>main\<close>
  returns.
\<close>

theorem blocks_made_once:
  assumes "\<not> parsing_failed e" and "main e r0 = Some r"
  shows "filter is_New_block (trace r) =
           [New_block Bl_source M_source Src_generate 16 1,
            New_block Bl_encoder M_encoder Enc_encode 16 1,
            New_block Bl_modulator M_modulator Mdm_modulate 16 1,
            New_block Bl_channel M_channel Chn_add_noise 16 1,
            New_block Bl_demodulator M_demodulator Mdm_demodulate 16 1,
            New_block Bl_decoder M_decoder Dec_decode_siho 16 1,
            New_block Bl_splitter M_splitter Spl_split 16 1,
            New_block Bl_monitor M_monitor Mnt_check_errors 16 1]
       \<and> filter is_New_block (before_sweep r) = filter is_New_block (trace r)
       \<and> filter is_Delete_block (after_sweep r) = filter is_Delete_block (trace r)
       \<and> (\<forall>it \<in> set (passes r).
            filter is_New_block it = [] \<and> filter is_Delete_block it = []
            \<and> filter is_Reset it = map Reset blocks)"
proof -
  from main_parsed [OF assms] obtain n where r: "r = finished_run e r0 n" by blast
  have "\<forall>it \<in> set (passes r).
      filter is_New_block it = [] \<and> filter is_Delete_block it = []
      \<and> filter is_Reset it = map Reset blocks"
    by (auto simp: r passes_finished_run loop_body_calls)
  then show ?thesis
    by (simp add: r trace_def before_sweep_calls after_sweep_calls sweep_calls)
qed

theorem blocks_made_once_witness:
  "\<not> parsing_failed env_ctrl_c
   \<and> main env_ctrl_c NaN = Some run_ctrl_c
   \<and> length (passes run_ctrl_c) = 3
   \<and> length (filter is_New_block (trace run_ctrl_c)) = 8
   \<and> filter is_New_block (before_sweep run_ctrl_c) = filter is_New_block (trace run_ctrl_c)
   \<and> filter is_Reset (passes run_ctrl_c ! 2) = map Reset blocks"
proof -
  have len: "length (passes run_ctrl_c) = 3"
    by (simp add: run_ctrl_c_def passes_finished_run)
  then have "passes run_ctrl_c ! 2 \<in> set (passes run_ctrl_c)"
    by (intro nth_mem) simp
  note len = len this
  from blocks_made_once [OF ctrl_c_parses main_ctrl_c] len ctrl_c_parses main_ctrl_c
  show ?thesis by simp
qed

subsection \<open>The configuration of the tasks\<close>

text \<open>
  C10. After \<open>init_modules\<close>, every task of every module of \<open>m.list\<close>, which holds the module
  of every block of the chain, has automatic allocation on, auto-execution off, debug off
  and statistics on. After the five setters the condition that guards \<open>set_fast(true)\<close> is
  false for any task, so the fast flag of every task is the one it was built with.
\<close>

theorem init_modules_task_modes:
  assumes "init_modules e p = (evs, m)" and "md \<in> set (m_list m)"
  shows "tasks m md = map configure_task (built_tasks e md)
       \<and> (\<forall>t \<in> set (tasks m md). autoalloc t \<and> \<not> autoexec t \<and> \<not> debug t \<and> stats t)
       \<and> \<not> fast_guard (set_task_modes t0)
       \<and> fast (configure_task t0) = fast t0
       \<and> map fast (tasks m md) = map fast (built_tasks e md)
       \<and> (New_block b md' tk sz th \<in> set (new_blocks p') \<longrightarrow> md' \<in> set (m_list m))"
proof -
  from assms(1) have m: "m = snd (init_modules e p)" by simp
  from assms(2) have md: "md \<noteq> M_codec"
    by (auto simp: m init_modules_result)
  then have ts: "tasks m md = map configure_task (built_tasks e md)"
    by (simp add: m init_modules_result)
  have modes: "\<forall>t \<in> set (tasks m md). autoalloc t \<and> \<not> autoexec t \<and> \<not> debug t \<and> stats t"
    by (auto simp: ts configure_task_eq set_task_modes_fields)
  have fast: "map fast (tasks m md) = map fast (built_tasks e md)"
    by (simp add: ts configure_task_eq set_task_modes_fields comp_def)
  have chain: "New_block b md' tk sz th \<in> set (new_blocks p') \<longrightarrow> md' \<in> set (m_list m)"
    by (auto simp: m init_modules_result new_blocks_def)
  from ts modes fast chain show ?thesis
    by (simp add: fast_guard_false configure_task_eq set_task_modes_fields)
qed

theorem init_modules_task_modes_witness:
  "M_decoder \<in> set (m_list (snd (init_modules env_ctrl_c (parsed_params env_ctrl_c NaN))))
   \<and> built_tasks env_ctrl_c M_decoder =
       [\<lparr>autoalloc = False, autoexec = True, debug = True, debug_limit = 0,
         stats = False, fast = False\<rparr>]
   \<and> tasks (snd (init_modules env_ctrl_c (parsed_params env_ctrl_c NaN))) M_decoder =
       [\<lparr>autoalloc = True, autoexec = False, debug = False, debug_limit = 16,
         stats = True, fast = False\<rparr>]
   \<and> New_block Bl_decoder M_decoder Dec_decode_siho 16 1
       \<in> set (new_blocks (parsed_params env_ctrl_c NaN))"
proof -
  let ?p = "parsed_params env_ctrl_c NaN"
  have a: "init_modules env_ctrl_c ?p =
      (fst (init_modules env_ctrl_c ?p), snd (init_modules env_ctrl_c ?p))"
    by simp
  have b: "M_decoder \<in> set (m_list (snd (init_modules env_ctrl_c ?p)))"
    by (simp add: init_modules_result)
  have c: "built_tasks env_ctrl_c M_decoder =
       [\<lparr>autoalloc = False, autoexec = True, debug = True, debug_limit = 0,
         stats = False, fast = False\<rparr>]"
    by (simp add: env_ctrl_c_def)
  have d: "New_block Bl_decoder M_decoder Dec_decode_siho 16 1 \<in> set (new_blocks ?p)"
    by (simp add: new_blocks_def parsed_params_sweep)
  from init_modules_task_modes [OF a b] b c d show ?thesis
    by (simp add: configure_task_def set_task_modes_def fast_guard_def)
qed

end
